theory Spec2Isabelle
  imports Main
begin

section \<open>The slot directory of one worker\<close>

text \<open>
  A worker slot is the directory \<^verbatim>\<open>~/.claude-code/orchestrator/workers/<id>\<close> with the files
  \<^verbatim>\<open>task.json\<close>, \<^verbatim>\<open>status.json\<close>, \<^verbatim>\<open>result.json\<close> and the lock directory \<^verbatim>\<open>.lock\<close>, which
  holds the file \<^verbatim>\<open>pid\<close>. Timestamps are written by every record but read by no code; they
  are left out of the records. Task ids and process ids are natural numbers.
\<close>

datatype wstatus = Idle | Working | Done | Error

text \<open>
  \<^verbatim>\<open>task.json\<close>: the worker reads \<^verbatim>\<open>.id\<close> and \<^verbatim>\<open>.prompt\<close> with \<^verbatim>\<open>jq -r '.x // empty'\<close>, so either
  field may be absent.
\<close>

record task_rec =
  t_id :: "nat option"
  t_prompt :: "string option"
  t_context :: "(string \<times> string) list"

record status_rec =
  st_status :: wstatus
  st_taskId :: "nat option"

record result_rec =
  r_taskId :: "nat option"
  r_output :: string
  r_success :: bool
  r_error :: "string option"

text \<open>The lock: no directory, or the directory with the contents of its \<^verbatim>\<open>pid\<close> file, if any.\<close>

datatype lock = NoLock | LockDir "nat option"

record slot =
  task_file :: "task_rec option"
  status_file :: status_rec
  result_file :: "result_rec option"
  lock_file :: lock

section \<open>The worker: \<^verbatim>\<open>bin/worker.sh\<close>\<close>

text \<open>
  The effects of the worker on its slot, in the order they happen. Log lines (stderr) and the
  two temporary files of the agent's output are not slot effects and are not recorded.
\<close>

datatype action =
    Mkdir_lock
  | Write_pid nat
  | Rm_lock
  | Sleep nat
  | Write_status status_rec
  | Run_agent string
  | Write_result result_rec
  | Rm_task

record wrun =
  fs :: slot
  trace :: "action list"

definition mkdir_lock :: "wrun \<Rightarrow> wrun" where
  "mkdir_lock w = w\<lparr>fs := (fs w)\<lparr>lock_file := LockDir None\<rparr>, trace := trace w @ [Mkdir_lock]\<rparr>"

definition write_pid :: "nat \<Rightarrow> wrun \<Rightarrow> wrun" where
  "write_pid p w = w\<lparr>fs := (fs w)\<lparr>lock_file := LockDir (Some p)\<rparr>, trace := trace w @ [Write_pid p]\<rparr>"

text \<open>\<^verbatim>\<open>rm -rf "$LOCK_FILE"\<close>: also fine when the directory is not there.\<close>

definition rm_lock :: "wrun \<Rightarrow> wrun" where
  "rm_lock w = w\<lparr>fs := (fs w)\<lparr>lock_file := NoLock\<rparr>, trace := trace w @ [Rm_lock]\<rparr>"

definition release_lock :: "wrun \<Rightarrow> wrun" where
  "release_lock w = rm_lock w"

definition sleep_for :: "nat \<Rightarrow> wrun \<Rightarrow> wrun" where
  "sleep_for d w = w\<lparr>trace := trace w @ [Sleep d]\<rparr>"

definition write_status :: "status_rec \<Rightarrow> wrun \<Rightarrow> wrun" where
  "write_status st w = w\<lparr>fs := (fs w)\<lparr>status_file := st\<rparr>, trace := trace w @ [Write_status st]\<rparr>"

definition write_result :: "result_rec \<Rightarrow> wrun \<Rightarrow> wrun" where
  "write_result r w = w\<lparr>fs := (fs w)\<lparr>result_file := Some r\<rparr>, trace := trace w @ [Write_result r]\<rparr>"

definition rm_task :: "wrun \<Rightarrow> wrun" where
  "rm_task w = w\<lparr>fs := (fs w)\<lparr>task_file := None\<rparr>, trace := trace w @ [Rm_task]\<rparr>"

definition run_agent :: "string \<Rightarrow> wrun \<Rightarrow> wrun" where
  "run_agent p w = w\<lparr>trace := trace w @ [Run_agent p]\<rparr>"

text \<open>
  Other processes share the slot directory. \<open>env k\<close> is what they do to it before the
  \<open>k\<close>-th pass of the loop of \<^verbatim>\<open>acquire_lock\<close>; the tests of one pass are taken on one snapshot.
\<close>

type_synonym lock_env = "nat \<Rightarrow> slot \<Rightarrow> slot"

definition interfere :: "(slot \<Rightarrow> slot) \<Rightarrow> wrun \<Rightarrow> wrun" where
  "interfere f w = w\<lparr>fs := f (fs w)\<rparr>"

definition quiet :: lock_env where
  "quiet k s = s"

text \<open>
  \<^verbatim>\<open>
  acquire_lock() {
    local retries=5
    local wait=1
    while [ $retries -gt 0 ]; do
      if mkdir "$LOCK_FILE" 2>/dev/null; then
        echo "$$" > "$LOCK_FILE/pid"
        return 0
      fi
      if [ -f "$LOCK_FILE/pid" ]; then
        local old_pid=$(cat "$LOCK_FILE/pid")
        if ! kill -0 "$old_pid" 2>/dev/null; then
          rm -rf "$LOCK_FILE"
          continue
        fi
      fi
      sleep "$wait"
      retries=$((retries - 1))
      wait=$((wait * 2))
    done
    return 1
  }
  \<close>
  The loop need not end (a stale lock can come back on every pass), so it runs on fuel:
  \<open>None\<close> is a loop still running when the fuel is gone. \<open>alive\<close> is the probe \<^verbatim>\<open>kill -0\<close>,
  \<open>me\<close> is \<^verbatim>\<open>$$\<close>, \<open>k\<close> counts the passes. The result is the exit status (\<open>True\<close> for 0).
\<close>

fun acquire_loop ::
  "nat \<Rightarrow> lock_env \<Rightarrow> (nat \<Rightarrow> bool) \<Rightarrow> nat \<Rightarrow> nat \<Rightarrow> nat \<Rightarrow> nat \<Rightarrow> wrun \<Rightarrow> (bool \<times> wrun) option"
where
  "acquire_loop 0 env alive me k retries wait w = None"
| "acquire_loop (Suc fuel) env alive me k retries wait w =
     (if 0 < retries then
        (let w1 = interfere (env k) w in
         case lock_file (fs w1) of
           NoLock \<Rightarrow> Some (True, write_pid me (mkdir_lock w1))
         | LockDir None \<Rightarrow>
             acquire_loop fuel env alive me (Suc k) (retries - 1) (wait * 2) (sleep_for wait w1)
         | LockDir (Some old_pid) \<Rightarrow>
             if alive old_pid
             then acquire_loop fuel env alive me (Suc k) (retries - 1) (wait * 2) (sleep_for wait w1)
             else acquire_loop fuel env alive me (Suc k) retries wait (rm_lock w1))
      else Some (False, w))"

definition acquire_lock ::
  "nat \<Rightarrow> lock_env \<Rightarrow> (nat \<Rightarrow> bool) \<Rightarrow> nat \<Rightarrow> wrun \<Rightarrow> (bool \<times> wrun) option"
where
  "acquire_lock fuel env alive me w = acquire_loop fuel env alive me 0 5 1 w"

text \<open>
  The agent \<^verbatim>\<open>claude-code\<close> is an opaque process: given the prompt on stdin it ends with an
  exit status (\<open>True\<close> for 0), its stdout and its stderr.
\<close>

type_synonym agent = "string \<Rightarrow> bool \<times> string \<times> string"

text \<open>
  \<^verbatim>\<open>process_task\<close>, lines 75 to 149. The result is the return status (0 or 1) and the run.
  The helper commands (\<^verbatim>\<open>mktemp\<close>, \<^verbatim>\<open>cd\<close>, \<^verbatim>\<open>jq -n\<close>, \<^verbatim>\<open>cat\<close>) are taken to succeed.
  \<^verbatim>\<open>
  process_task() {
    local task_file="$1"
    if ! acquire_lock; then
      log "Failed to acquire lock"
      return 1
    fi
    if [ ! -f "$task_file" ]; then
      release_lock
      return 0
    fi
    local task_id=$(jq -r '.id // empty' "$task_file")
    local prompt=$(jq -r '.prompt // empty' "$task_file")
    if [ -z "$prompt" ]; then
      log "Invalid task file, skipping"
      rm -f "$task_file"
      release_lock
      return 0
    fi
    (status "working" with the task id) > "$STATUS_FILE"
    if echo "$prompt" | claude-code 2>"$error_file" 1>"$output_file"; then
      success=true
    else
      success=false
    fi
    (result with taskId, output, success, error: the stderr text or null) > "$RESULT_FILE"
    if [ "$success" = "true" ]; then
      (status "done" with the task id) > "$STATUS_FILE"
    else
      (status "error" with the task id) > "$STATUS_FILE"
    fi
    rm -f "$output_file" "$error_file" "$task_file"
    release_lock
  }
  \<close>
  \<open>finish_task\<close> is the part from the first status write on.
\<close>

definition finish_task :: "agent \<Rightarrow> nat option \<Rightarrow> string \<Rightarrow> wrun \<Rightarrow> wrun" where
  "finish_task agent task_id prompt w =
     (let w1 = write_status \<lparr>st_status = Working, st_taskId = task_id\<rparr> w;
          (success, output, errors) = agent prompt;
          w2 = run_agent prompt w1;
          w3 = write_result \<lparr>r_taskId = task_id, r_output = output, r_success = success,
                 r_error = (if errors = [] then None else Some errors)\<rparr> w2;
          w4 = (if success
                then write_status \<lparr>st_status = Done, st_taskId = task_id\<rparr> w3
                else write_status \<lparr>st_status = Error, st_taskId = task_id\<rparr> w3);
          w5 = rm_task w4
      in release_lock w5)"

definition process_task ::
  "nat \<Rightarrow> lock_env \<Rightarrow> (nat \<Rightarrow> bool) \<Rightarrow> agent \<Rightarrow> nat \<Rightarrow> slot \<Rightarrow> (nat \<times> wrun) option"
where
  "process_task fuel env alive agent me s =
     (case acquire_lock fuel env alive me \<lparr>fs = s, trace = []\<rparr> of
        None \<Rightarrow> None
      | Some (False, w) \<Rightarrow> Some (1, w)
      | Some (True, w) \<Rightarrow>
          (case task_file (fs w) of
             None \<Rightarrow> Some (0, release_lock w)
           | Some t \<Rightarrow>
               (let task_id = t_id t;
                    prompt = (case t_prompt t of None \<Rightarrow> [] | Some p \<Rightarrow> p)
                in if prompt = []
                   then Some (0, release_lock (rm_task w))
                   else Some (0, finish_task agent task_id prompt w))))"

text \<open>
  One pass of the main loop of the worker \<open>i\<close> (lines 190 to 195): when \<^verbatim>\<open>task.json\<close> is there,
  \<^verbatim>\<open>process_task\<close> runs on the slot, with nobody else touching the lock meanwhile.
\<close>

definition worker_pass :: "agent \<Rightarrow> nat \<Rightarrow> nat \<Rightarrow> (nat \<Rightarrow> slot) \<Rightarrow> (nat \<Rightarrow> slot)" where
  "worker_pass agent me i ss =
     (case task_file (ss i) of
        None \<Rightarrow> ss
      | Some t \<Rightarrow>
          (case process_task 6 quiet (\<lambda>p. p = me) agent me (ss i) of
             None \<Rightarrow> ss
           | Some (rc, r) \<Rightarrow> ss(i := fs r)))"

section \<open>The orchestrator: \<^verbatim>\<open>bin/orchestrator.js\<close>\<close>

text \<open>The task objects handed to the orchestrator: \<^verbatim>\<open>{prompt, context, stopOnError}\<close>.\<close>

record task =
  prompt :: string
  ctxt :: "(string \<times> string) list"
  stopOnError :: bool

text \<open>
  What the orchestrator acts on: the slot directories, the clock \<^verbatim>\<open>Date.now()\<close> in
  milliseconds, the number of suspension points passed so far, and the counter of task ids.
  \<open>dispatched\<close> is a history variable: every task record written, as worker id, task id
  and prompt.
\<close>

record world =
  slots :: "nat \<Rightarrow> slot"
  now :: nat
  ticks :: nat
  next_id :: nat
  dispatched :: "(nat \<times> nat \<times> string) list"

text \<open>
  The workers are separate processes. \<open>env k\<close> is what they do to the slots while the
  orchestrator is suspended for the \<open>k\<close>-th time; it is suspended at every \<^verbatim>\<open>await\<close> of the
  source. A timer advances the clock as well.
\<close>

type_synonym workers_env = "nat \<Rightarrow> (nat \<Rightarrow> slot) \<Rightarrow> (nat \<Rightarrow> slot)"

definition yield :: "workers_env \<Rightarrow> world \<Rightarrow> world" where
  "yield env w = w\<lparr>slots := env (ticks w) (slots w), ticks := Suc (ticks w)\<rparr>"

definition sleep :: "workers_env \<Rightarrow> nat \<Rightarrow> world \<Rightarrow> world" where
  "sleep env d w = yield env (w\<lparr>now := now w + d\<rparr>)"

definition still :: workers_env where
  "still k ss = ss"

datatype error = Timeout_worker | Timeout_status | TypeError

subsection \<open>The queue library\<close>

text \<open>
  Modelled from the spec: \<^verbatim>\<open>readStatus\<close> of \<^verbatim>\<open>lib/queue.js\<close>, which is not among the sources.
  Section 4.2: \<open>readStatus(slotId) -> Status\<close>; a slot has exactly one Status.
\<close>

definition readStatus :: "world \<Rightarrow> nat \<Rightarrow> status_rec" where
  "readStatus w workerId = status_file (slots w workerId)"

text \<open>
  Modelled from the spec: \<^verbatim>\<open>readResult\<close> of \<^verbatim>\<open>lib/queue.js\<close>. Section 4.2:
  \<open>readResult(slotId) -> Result | empty\<close>; a record that does not exist reads as empty.
\<close>

definition readResult :: "world \<Rightarrow> nat \<Rightarrow> result_rec option" where
  "readResult w workerId = result_file (slots w workerId)"

text \<open>Modelled from the spec: \<^verbatim>\<open>clearResult\<close> of \<^verbatim>\<open>lib/queue.js\<close>; it removes the Result record.\<close>

definition clearResult :: "nat \<Rightarrow> world \<Rightarrow> world" where
  "clearResult workerId w =
     w\<lparr>slots := (slots w)(workerId := (slots w workerId)\<lparr>result_file := None\<rparr>)\<rparr>"

text \<open>
  Modelled from the spec: \<^verbatim>\<open>writeTask\<close> of \<^verbatim>\<open>lib/queue.js\<close>. Section 4.2: it writes the Task
  record and returns its id, a fresh, increasing id on every call.
\<close>

definition writeTask :: "nat \<Rightarrow> string \<Rightarrow> (string \<times> string) list \<Rightarrow> world \<Rightarrow> nat \<times> world" where
  "writeTask workerId p c w =
     (next_id w,
      w\<lparr>slots := (slots w)(workerId := (slots w workerId)
            \<lparr>task_file := Some \<lparr>t_id = Some (next_id w), t_prompt = Some p, t_context = c\<rparr>\<rparr>),
        next_id := Suc (next_id w),
        dispatched := dispatched w @ [(workerId, next_id w, p)]\<rparr>)"

text \<open>
  Modelled from the spec: \<^verbatim>\<open>writeStatus\<close> of \<^verbatim>\<open>lib/queue.js\<close>. Section 4.2:
  \<open>writeStatus(slotId, status)\<close>; the orchestrator passes the state only, so no task id.
\<close>

definition writeStatus :: "nat \<Rightarrow> wstatus \<Rightarrow> world \<Rightarrow> world" where
  "writeStatus workerId st w =
     w\<lparr>slots := (slots w)(workerId := (slots w workerId)
          \<lparr>status_file := \<lparr>st_status = st, st_taskId = None\<rparr>\<rparr>)\<rparr>"

text \<open>
  Modelled from the spec: the poll interval of \<^verbatim>\<open>waitForStatus\<close>, in milliseconds. The spec
  (4.4, 6) names a short fixed interval and a documented default of one second.
\<close>

definition poll_ms :: nat where
  "poll_ms = 1000"

text \<open>
  Modelled from the spec: \<^verbatim>\<open>waitForStatus(id, statuses, timeout)\<close> of \<^verbatim>\<open>lib/queue.js\<close>, "wait for
  state change": it polls the status until it is one of the given ones, and fails when the
  timeout has passed.
\<close>

function waitForStatus_loop ::
  "workers_env \<Rightarrow> nat \<Rightarrow> wstatus list \<Rightarrow> nat \<Rightarrow> nat \<Rightarrow> world \<Rightarrow> (error + status_rec) \<times> world"
where
  "waitForStatus_loop env workerId targets start timeoutMs w =
     (if now w - start < timeoutMs then
        (let status = readStatus w workerId in
         if st_status status \<in> set targets then (Inr status, w)
         else waitForStatus_loop env workerId targets start timeoutMs (sleep env poll_ms w))
      else (Inl Timeout_status, w))"
  by pat_completeness auto
termination
  by (relation "measure (\<lambda>(env, workerId, targets, start, timeoutMs, w). start + timeoutMs - now w)")
     (auto simp: sleep_def yield_def poll_ms_def)

declare waitForStatus_loop.simps [simp del]

definition waitForStatus ::
  "workers_env \<Rightarrow> nat \<Rightarrow> wstatus list \<Rightarrow> nat \<Rightarrow> world \<Rightarrow> (error + status_rec) \<times> world"
where
  "waitForStatus env workerId targets timeoutMs w =
     waitForStatus_loop env workerId targets (now w) timeoutMs w"

subsection \<open>The class \<^verbatim>\<open>Orchestrator\<close>\<close>

text \<open>\<open>workers\<close> is \<^verbatim>\<open>this.workers\<close>, the ids \<open>0, ..., numWorkers - 1\<close> in this order.\<close>

definition make_workers :: "nat \<Rightarrow> nat list" where
  "make_workers numWorkers = [0..<numWorkers]"

fun findIdleWorker :: "nat list \<Rightarrow> world \<Rightarrow> nat option" where
  "findIdleWorker [] w = None"
| "findIdleWorker (workerId # rest) w =
     (let status = readStatus w workerId in
      if st_status status = Idle \<or> st_status status = Done then Some workerId
      else findIdleWorker rest w)"

text \<open>
  \<^verbatim>\<open>
  async waitForAvailableWorker(timeoutMs = 300000) {
    const startTime = Date.now();
    while (Date.now() - startTime < timeoutMs) {
      const workerId = await this.findIdleWorker();
      if (workerId !== null) { return workerId; }
      await new Promise(resolve => setTimeout(resolve, 1000));
    }
    throw new Error('Timeout waiting for available worker');
  }
  \<close>
\<close>

function waitForAvailableWorker_loop ::
  "workers_env \<Rightarrow> nat list \<Rightarrow> nat \<Rightarrow> nat \<Rightarrow> world \<Rightarrow> (error + nat) \<times> world"
where
  "waitForAvailableWorker_loop env workers startTime timeoutMs w =
     (if now w - startTime < timeoutMs then
        (case findIdleWorker workers w of
           Some workerId \<Rightarrow> (Inr workerId, yield env w)
         | None \<Rightarrow>
             waitForAvailableWorker_loop env workers startTime timeoutMs
               (sleep env 1000 (yield env w)))
      else (Inl Timeout_worker, w))"
  by pat_completeness auto
termination
  by (relation "measure (\<lambda>(env, workers, startTime, timeoutMs, w). startTime + timeoutMs - now w)")
     (auto simp: sleep_def yield_def)

declare waitForAvailableWorker_loop.simps [simp del]

definition waitForAvailableWorker :: "workers_env \<Rightarrow> nat list \<Rightarrow> world \<Rightarrow> (error + nat) \<times> world" where
  "waitForAvailableWorker env workers w =
     waitForAvailableWorker_loop env workers (now w) 300000 w"

definition assignTask :: "nat \<Rightarrow> string \<Rightarrow> (string \<times> string) list \<Rightarrow> world \<Rightarrow> nat \<times> world" where
  "assignTask workerId p c w = writeTask workerId p c (clearResult workerId w)"

definition waitForCompletion :: "workers_env \<Rightarrow> nat \<Rightarrow> world \<Rightarrow> (error + status_rec) \<times> world" where
  "waitForCompletion env workerId w =
     (case waitForStatus env workerId [Done, Error] 300000 w of (r, w1) \<Rightarrow> (r, yield env w1))"

definition getResult :: "world \<Rightarrow> nat \<Rightarrow> result_rec option" where
  "getResult w workerId = readResult w workerId"

text \<open>An element of \<^verbatim>\<open>results\<close>: \<^verbatim>\<open>{workerId, taskId, task, result, status}\<close>.\<close>

record outcome =
  o_workerId :: nat
  o_taskId :: nat
  o_task :: task
  o_result :: "result_rec option"
  o_status :: wstatus

text \<open>
  \<^verbatim>\<open>activeWorkers\<close> is a JavaScript \<^verbatim>\<open>Map\<close>: its keys are kept in the order of their first
  insertion, and \<^verbatim>\<open>set\<close> on a key that is there replaces its value in place.
\<close>

type_synonym active = "(nat \<times> nat \<times> task) list"

fun map_set :: "nat \<Rightarrow> nat \<times> task \<Rightarrow> active \<Rightarrow> active" where
  "map_set k v [] = [(k, v)]"
| "map_set k v (e # es) = (if fst e = k then (k, v) # es else e # map_set k v es)"

fun map_get :: "active \<Rightarrow> nat \<Rightarrow> (nat \<times> task) option" where
  "map_get [] k = None"
| "map_get (e # es) k = (if fst e = k then Some (snd e) else map_get es k)"

fun map_delete :: "nat \<Rightarrow> active \<Rightarrow> active" where
  "map_delete k [] = []"
| "map_delete k (e # es) = (if fst e = k then map_delete k es else e # map_delete k es)"

text \<open>
  The inner loop of \<^verbatim>\<open>executeTasks\<close>, lines 125 to 133:
  \<^verbatim>\<open>
  while (taskQueue.length > 0) {
    const workerId = await this.findIdleWorker();
    if (workerId === null) break;
    const task = taskQueue.shift();
    const taskId = await this.assignTask(workerId, task.prompt, task.context);
    activeWorkers.set(workerId, { taskId, originalTask: task });
  }
  \<close>
\<close>

fun assign_loop ::
  "workers_env \<Rightarrow> nat list \<Rightarrow> task list \<Rightarrow> active \<Rightarrow> world \<Rightarrow> task list \<times> active \<times> world"
where
  "assign_loop env workers [] activeWorkers w = ([], activeWorkers, w)"
| "assign_loop env workers (task # taskQueue) activeWorkers w =
     (case findIdleWorker workers w of
        None \<Rightarrow> (task # taskQueue, activeWorkers, yield env w)
      | Some workerId \<Rightarrow>
          (let (taskId, w1) = assignTask workerId (prompt task) (ctxt task) (yield env w)
           in assign_loop env workers taskQueue
                (map_set workerId (taskId, task) activeWorkers) (yield env w1)))"

text \<open>
  The loop over \<^verbatim>\<open>activeWorkers.keys()\<close>, lines 137 to 158. Only the key at hand is deleted
  while the loop runs, so it visits the keys that were there when it started.
\<close>

fun collect_loop ::
  "nat list \<Rightarrow> active \<Rightarrow> outcome list \<Rightarrow> world \<Rightarrow> active \<times> outcome list \<times> world"
where
  "collect_loop [] activeWorkers results w = (activeWorkers, results, w)"
| "collect_loop (workerId # keys) activeWorkers results w =
     (let status = readStatus w workerId in
      if st_status status = Done \<or> st_status status = Error then
        (case map_get activeWorkers workerId of
           None \<Rightarrow> collect_loop keys activeWorkers results w
         | Some (taskId, originalTask) \<Rightarrow>
             collect_loop keys (map_delete workerId activeWorkers)
               (results @ [\<lparr>o_workerId = workerId, o_taskId = taskId, o_task = originalTask,
                             o_result = getResult w workerId, o_status = st_status status\<rparr>])
               (writeStatus workerId Idle w))
      else collect_loop keys activeWorkers results w)"

text \<open>
  The outer loop of \<^verbatim>\<open>executeTasks\<close>, lines 123 to 163. Nothing bounds the number of its
  passes, so it runs on fuel; \<open>None\<close> is a loop still running when the fuel is gone.
  \<^verbatim>\<open>
  while (taskQueue.length > 0 || activeWorkers.size > 0) {
    while (taskQueue.length > 0) { ... }
    if (activeWorkers.size > 0) {
      for (const workerId of activeWorkers.keys()) {
        const status = readStatus(workerId);
        if (status.status === 'done' || status.status === 'error') {
          const result = this.getResult(workerId);
          const workerInfo = activeWorkers.get(workerId);
          results.push({ workerId, taskId: workerInfo.taskId, task: workerInfo.originalTask,
                         result, status: status.status });
          writeStatus(workerId, 'idle');
          activeWorkers.delete(workerId);
        }
      }
      await new Promise(resolve => setTimeout(resolve, 500));
    }
  }
  return results;
  \<close>
\<close>

fun executeTasks_loop ::
  "nat \<Rightarrow> workers_env \<Rightarrow> nat list \<Rightarrow> task list \<Rightarrow> active \<Rightarrow> outcome list \<Rightarrow> world \<Rightarrow>
   ((error + outcome list) \<times> world) option"
where
  "executeTasks_loop 0 env workers taskQueue activeWorkers results w = None"
| "executeTasks_loop (Suc fuel) env workers taskQueue activeWorkers results w =
     (if 0 < length taskQueue \<or> 0 < length activeWorkers then
        (let (taskQueue1, active1, w1) = assign_loop env workers taskQueue activeWorkers w in
         if 0 < length active1 then
           (let (active2, results2, w2) = collect_loop (map fst active1) active1 results w1
            in executeTasks_loop fuel env workers taskQueue1 active2 results2 (sleep env 500 w2))
         else executeTasks_loop fuel env workers taskQueue1 active1 results w1)
      else Some (Inr results, w))"

definition executeTasks ::
  "nat \<Rightarrow> workers_env \<Rightarrow> nat list \<Rightarrow> task list \<Rightarrow> world \<Rightarrow> ((error + outcome list) \<times> world) option"
where
  "executeTasks fuel env workers tasks w = executeTasks_loop fuel env workers tasks [] [] w"

text \<open>
  \<^verbatim>\<open>executeSequential\<close>, lines 171 to 205. The test
  \<^verbatim>\<open>task.stopOnError && !result.success\<close> reads \<^verbatim>\<open>result.success\<close> only when \<^verbatim>\<open>stopOnError\<close> is set,
  and throws a \<^verbatim>\<open>TypeError\<close> there when \<^verbatim>\<open>result\<close> is \<^verbatim>\<open>null\<close>. An error ends the call; the world
  it leaves is returned with it.
  \<^verbatim>\<open>
  for (let i = 0; i < tasks.length; i++) {
    const task = tasks[i];
    const workerId = await this.waitForAvailableWorker();
    const taskId = await this.assignTask(workerId, task.prompt, task.context);
    await this.waitForCompletion(workerId);
    const result = this.getResult(workerId);
    results.push({ workerId, taskId, task, result, status: readStatus(workerId).status });
    writeStatus(workerId, 'idle');
    if (task.stopOnError && !result.success) {
      break;
    }
  }
  return results;
  \<close>
\<close>

fun executeSequential_loop ::
  "workers_env \<Rightarrow> nat list \<Rightarrow> task list \<Rightarrow> outcome list \<Rightarrow> world \<Rightarrow> (error + outcome list) \<times> world"
where
  "executeSequential_loop env workers [] results w = (Inr results, w)"
| "executeSequential_loop env workers (task # rest) results w =
     (case waitForAvailableWorker env workers w of
        (Inl e, w1) \<Rightarrow> (Inl e, w1)
      | (Inr workerId, w1) \<Rightarrow>
          (let (taskId, w2) = assignTask workerId (prompt task) (ctxt task) (yield env w1)
           in case waitForCompletion env workerId (yield env w2) of
                (Inl e, w3) \<Rightarrow> (Inl e, w3)
              | (Inr status, w3) \<Rightarrow>
                  (let w4 = yield env w3;
                       result = getResult w4 workerId;
                       results1 = results @
                         [\<lparr>o_workerId = workerId, o_taskId = taskId, o_task = task,
                           o_result = result, o_status = st_status (readStatus w4 workerId)\<rparr>];
                       w5 = writeStatus workerId Idle w4
                   in if stopOnError task then
                        (case result of
                           None \<Rightarrow> (Inl TypeError, w5)
                         | Some r \<Rightarrow>
                             if r_success r then executeSequential_loop env workers rest results1 w5
                             else (Inr results1, w5))
                      else executeSequential_loop env workers rest results1 w5)))"

definition executeSequential ::
  "workers_env \<Rightarrow> nat list \<Rightarrow> task list \<Rightarrow> world \<Rightarrow> (error + outcome list) \<times> world"
where
  "executeSequential env workers tasks w = executeSequential_loop env workers tasks [] w"

section \<open>Predicates and inputs of the properties\<close>

text \<open>What a pass of \<^verbatim>\<open>acquire_lock\<close> can find: a marker whose pid is alive, a marker whose pid is
  dead (stale), and a marker that is there and not stale (pid alive, or no pid file).\<close>

definition held_by_live :: "(nat \<Rightarrow> bool) \<Rightarrow> lock \<Rightarrow> bool" where
  "held_by_live alive l =
     (case l of NoLock \<Rightarrow> False | LockDir None \<Rightarrow> False | LockDir (Some p) \<Rightarrow> alive p)"

definition stale :: "(nat \<Rightarrow> bool) \<Rightarrow> lock \<Rightarrow> bool" where
  "stale alive l =
     (case l of NoLock \<Rightarrow> False | LockDir None \<Rightarrow> False | LockDir (Some p) \<Rightarrow> \<not> alive p)"

definition present_not_stale :: "(nat \<Rightarrow> bool) \<Rightarrow> lock \<Rightarrow> bool" where
  "present_not_stale alive l =
     (case l of NoLock \<Rightarrow> False | LockDir None \<Rightarrow> True | LockDir (Some p) \<Rightarrow> alive p)"

text \<open>The sleeps of \<open>r\<close> passes that back off, starting at \<open>d\<close> seconds.\<close>

definition backoff :: "nat \<Rightarrow> nat \<Rightarrow> action list" where
  "backoff d r = map (\<lambda>i. Sleep (d * 2 ^ i)) [0..<r]"

text \<open>Another process that leaves a marker with the dead pid \<open>p\<close> before every pass.\<close>

definition restale :: "nat \<Rightarrow> lock_env" where
  "restale p k s = s\<lparr>lock_file := LockDir (Some p)\<rparr>"

text \<open>The actions of \<^verbatim>\<open>acquire_lock\<close>.\<close>

fun lock_action :: "action \<Rightarrow> bool" where
  "lock_action Mkdir_lock = True"
| "lock_action (Write_pid p) = True"
| "lock_action Rm_lock = True"
| "lock_action (Sleep d) = True"
| "lock_action a = False"

text \<open>An outcome that ends the pipeline: its task has \<^verbatim>\<open>stopOnError\<close> and its result is not a
  success.\<close>

definition stops :: "outcome \<Rightarrow> bool" where
  "stops oc =
     (stopOnError (o_task oc) \<and> (case o_result oc of None \<Rightarrow> True | Some r \<Rightarrow> \<not> r_success r))"

definition dispatch_of :: "outcome \<Rightarrow> nat \<times> nat \<times> string" where
  "dispatch_of oc = (o_workerId oc, o_taskId oc, prompt (o_task oc))"

definition seq_post :: "task list \<Rightarrow> outcome list \<Rightarrow> bool" where
  "seq_post tasks new =
     (map o_task new = take (length new) tasks
      \<and> list_all (\<lambda>oc. \<not> stops oc) (butlast new)
      \<and> (length new = length tasks \<or> (new \<noteq> [] \<and> stops (last new))))"

text \<open>The slot invariant of the specification: an idle slot holds no Task and no Result.\<close>

definition idle_slot_empty :: "slot \<Rightarrow> bool" where
  "idle_slot_empty s =
     (if st_status (status_file s) = Idle then task_file s = None \<and> result_file s = None else True)"

text \<open>The state after \<^verbatim>\<open>new Orchestrator(n)\<close>: every slot idle and empty.\<close>

definition slot0 :: slot where
  "slot0 = \<lparr>task_file = None, status_file = \<lparr>st_status = Idle, st_taskId = None\<rparr>,
            result_file = None, lock_file = NoLock\<rparr>"

definition world0 :: world where
  "world0 = \<lparr>slots = (\<lambda>i. slot0), now = 0, ticks = 0, next_id = 1, dispatched = []\<rparr>"

definition agent_ok :: agent where
  "agent_ok p = (True, ''ok'', [])"

definition agent_fail :: agent where
  "agent_fail p = (False, [], ''boom'')"

definition tA :: task where
  "tA = \<lparr>prompt = ''A'', ctxt = [], stopOnError = True\<rparr>"

definition tB :: task where
  "tB = \<lparr>prompt = ''B'', ctxt = [], stopOnError = False\<rparr>"

definition tC :: task where
  "tC = \<lparr>prompt = ''C'', ctxt = [], stopOnError = False\<rparr>"

text \<open>
  Worker 0 with pid 100. It is not scheduled during the first four suspensions of the
  orchestrator, which are the \<^verbatim>\<open>await\<close>s of the assignment loop and take no time; from the
  first timer on it runs one pass of its main loop per suspension.
\<close>

definition slow_worker :: "agent \<Rightarrow> workers_env" where
  "slow_worker agent k ss = (if k < 4 then ss else worker_pass agent 100 0 ss)"

text \<open>Worker 0 with pid 100 and an agent that fails; it runs a pass at every suspension.\<close>

definition failing_worker :: workers_env where
  "failing_worker k ss = worker_pass agent_fail 100 0 ss"

definition resA :: result_rec where
  "resA = \<lparr>r_taskId = Some 1, r_output = [], r_success = False, r_error = Some ''boom''\<rparr>"

definition ocA :: outcome where
  "ocA = \<lparr>o_workerId = 0, o_taskId = 1, o_task = tA, o_result = Some resA, o_status = Error\<rparr>"

definition wA :: world where
  "wA = \<lparr>slots = (\<lambda>i. slot0)(0 := slot0\<lparr>result_file := Some resA\<rparr>),
          now = 0, ticks = 5, next_id = 2, dispatched = [(0, 1, ''A'')]\<rparr>"

definition resB :: result_rec where
  "resB = \<lparr>r_taskId = Some 2, r_output = ''ok'', r_success = True, r_error = None\<rparr>"

definition ocB :: outcome where
  "ocB = \<lparr>o_workerId = 0, o_taskId = 2, o_task = tB, o_result = Some resB, o_status = Done\<rparr>"

definition wB :: world where
  "wB = \<lparr>slots = (\<lambda>i. slot0)(0 := slot0\<lparr>result_file := Some resB\<rparr>),
          now = 1000, ticks = 6, next_id = 3, dispatched = [(0, 1, ''A''), (0, 2, ''B'')]\<rparr>"

text \<open>One worker, left in state \<^verbatim>\<open>working\<close>.\<close>

definition world_busy :: world where
  "world_busy = \<lparr>slots = (\<lambda>i. slot0\<lparr>status_file := \<lparr>st_status = Working, st_taskId = Some 7\<rparr>\<rparr>),
                  now = 0, ticks = 0, next_id = 1, dispatched = []\<rparr>"

text \<open>Runs of the worker with pid 3: a marker of the live pid 7, of the dead pid 9, without pid.\<close>

definition run_live :: wrun where
  "run_live = \<lparr>fs = slot0\<lparr>lock_file := LockDir (Some 7)\<rparr>, trace = []\<rparr>"

definition run_stale :: wrun where
  "run_stale = \<lparr>fs = slot0\<lparr>lock_file := LockDir (Some 9)\<rparr>, trace = []\<rparr>"

definition run_nopid :: wrun where
  "run_nopid = \<lparr>fs = slot0\<lparr>lock_file := LockDir None\<rparr>, trace = []\<rparr>"

text \<open>A slot with a well-formed task, and one whose task has no prompt.\<close>

definition slot_task :: slot where
  "slot_task = slot0\<lparr>task_file := Some \<lparr>t_id = Some 1, t_prompt = Some ''A'', t_context = []\<rparr>\<rparr>"

definition slot_noprompt :: slot where
  "slot_noprompt = slot0\<lparr>task_file := Some \<lparr>t_id = Some 1, t_prompt = None, t_context = []\<rparr>\<rparr>"

definition run_done :: wrun where
  "run_done =
     \<lparr>fs = slot0\<lparr>status_file := \<lparr>st_status = Done, st_taskId = Some 1\<rparr>,
                 result_file := Some \<lparr>r_taskId = Some 1, r_output = ''ok'', r_success = True,
                                      r_error = None\<rparr>\<rparr>,
      trace = [Mkdir_lock, Write_pid 100,
               Write_status \<lparr>st_status = Working, st_taskId = Some 1\<rparr>,
               Run_agent ''A'',
               Write_result \<lparr>r_taskId = Some 1, r_output = ''ok'', r_success = True, r_error = None\<rparr>,
               Write_status \<lparr>st_status = Done, st_taskId = Some 1\<rparr>,
               Rm_task, Rm_lock]\<rparr>"

definition run_discarded :: wrun where
  "run_discarded = \<lparr>fs = slot0, trace = [Mkdir_lock, Write_pid 100, Rm_task, Rm_lock]\<rparr>"

section \<open>The lock\<close>

lemma backoff_Suc: "backoff d (Suc r) = Sleep d # backoff (d * 2) r"
  unfolding backoff_def by (simp only: map_upt_Suc) (simp add: mult.assoc)

lemma fs_sleep_for [simp]: "fs (sleep_for d w) = fs w"
  by (simp add: sleep_for_def)

lemma trace_sleep_for [simp]: "trace (sleep_for d w) = trace w @ [Sleep d]"
  by (simp add: sleep_for_def)

lemma trace_interfere [simp]: "trace (interfere f w) = trace w"
  by (simp add: interfere_def)

lemma fs_interfere [simp]: "fs (interfere f w) = f (fs w)"
  by (simp add: interfere_def)

lemma acquire_loop_live:
  assumes keeps: "\<And>k s. held_by_live alive (lock_file s) \<Longrightarrow> held_by_live alive (lock_file (env k s))"
  shows "held_by_live alive (lock_file (fs w)) \<Longrightarrow>
         \<exists>w'. acquire_loop (Suc (r + n)) env alive me k r d w = Some (False, w')
            \<and> trace w' = trace w @ backoff d r"
proof (induction r arbitrary: k d w)
  case 0
  then show ?case by (simp add: backoff_def)
next
  case (Suc r)
  let ?w1 = "interfere (env k) w"
  have h: "held_by_live alive (lock_file (fs ?w1))"
    using Suc.prems keeps by simp
  then have step: "acquire_loop (Suc (Suc r + n)) env alive me k (Suc r) d w =
      acquire_loop (Suc (r + n)) env alive me (Suc k) r (d * 2) (sleep_for d ?w1)"
    by (auto simp: held_by_live_def Let_def split: lock.splits option.splits)
  have "held_by_live alive (lock_file (fs (sleep_for d ?w1)))"
    using h by simp
  from Suc.IH [OF this, of "Suc k" "d * 2"] obtain w' where
    "acquire_loop (Suc (r + n)) env alive me (Suc k) r (d * 2) (sleep_for d ?w1) = Some (False, w')"
    "trace w' = trace (sleep_for d ?w1) @ backoff (d * 2) r"
    by blast
  with step show ?case by (simp add: backoff_Suc)
qed

text \<open>
  C5. When the lock is held by a live process, and stays so, \<^verbatim>\<open>acquire_lock\<close> makes five
  attempts, sleeps 1, 2, 4, 8 and 16 seconds after them (doubling, 31 seconds in all), and
  then returns the failure status. Six units of fuel are enough, so the call does return.
\<close>

theorem acquire_lock_live_holder:
  assumes held: "held_by_live alive (lock_file (fs w))"
    and keeps: "\<And>k s. held_by_live alive (lock_file s) \<Longrightarrow> held_by_live alive (lock_file (env k s))"
  shows "\<exists>w'. acquire_lock (6 + n) env alive me w = Some (False, w')
           \<and> trace w' = trace w @ [Sleep 1, Sleep 2, Sleep 4, Sleep 8, Sleep 16]"
proof -
  have b: "backoff 1 5 = [Sleep 1, Sleep 2, Sleep 4, Sleep 8, Sleep 16]"
    by (simp add: backoff_def upt_rec)
  have f: "6 + n = Suc (5 + n)" by simp
  show ?thesis
    unfolding acquire_lock_def f
    using acquire_loop_live [of alive env w 5 n me 0 1, OF keeps held] by (simp only: b)
qed

theorem acquire_lock_live_holder_witness:
  "held_by_live (\<lambda>p. p = 7) (lock_file (fs run_live)) \<and>
   (\<exists>w'. acquire_lock 6 quiet (\<lambda>p. p = 7) 3 run_live = Some (False, w')
           \<and> trace w' = [Sleep 1, Sleep 2, Sleep 4, Sleep 8, Sleep 16])"
proof -
  have h: "held_by_live (\<lambda>p. p = 7) (lock_file (fs run_live))"
    by (simp add: held_by_live_def run_live_def)
  have k: "\<And>k s. held_by_live (\<lambda>p. p = 7) (lock_file s) \<Longrightarrow>
             held_by_live (\<lambda>p. p = 7) (lock_file (quiet k s))"
    by (simp add: quiet_def)
  have "trace run_live = []"
    by (simp add: run_live_def)
  then show ?thesis
    using h acquire_lock_live_holder [of "\<lambda>p. p = 7" run_live quiet 0 3, OF h k] by simp
qed

text \<open>
  C6. When the marker records the pid of a process that is not alive, and no other process
  touches the slot meanwhile, \<^verbatim>\<open>acquire_lock\<close> removes the marker on its first pass and takes the
  lock on the second: it returns success, has not slept, and the marker records its own pid.
\<close>

theorem stale_lock_reclaimed:
  assumes "lock_file (fs w) = LockDir (Some p)" and "\<not> alive p"
  shows "acquire_lock (Suc (Suc n)) quiet alive me w =
           Some (True, w\<lparr>fs := (fs w)\<lparr>lock_file := LockDir (Some me)\<rparr>,
                         trace := trace w @ [Rm_lock, Mkdir_lock, Write_pid me]\<rparr>)"
  using assms
  by (simp add: acquire_lock_def quiet_def interfere_def rm_lock_def mkdir_lock_def write_pid_def)

theorem stale_lock_reclaimed_witness:
  "lock_file (fs run_stale) = LockDir (Some 9) \<and> (9::nat) \<noteq> 7 \<and>
   acquire_lock (Suc (Suc 0)) quiet (\<lambda>p. p = 7) 3 run_stale =
     Some (True, \<lparr>fs = slot0\<lparr>lock_file := LockDir (Some 3)\<rparr>,
                   trace = [Rm_lock, Mkdir_lock, Write_pid 3]\<rparr>)"
  using stale_lock_reclaimed [of run_stale 9 "\<lambda>p. p = 7" 0 3]
  by (simp add: run_stale_def slot0_def)

lemma acquire_loop_restale:
  "\<not> alive p \<Longrightarrow> 0 < retries \<Longrightarrow> acquire_loop fuel (restale p) alive me k retries wait w = None"
  by (induction fuel arbitrary: k w) (simp_all add: restale_def Let_def)

lemma acquire_loop_no_stale:
  assumes keeps: "\<And>k s. \<not> stale alive (lock_file s) \<Longrightarrow> \<not> stale alive (lock_file (env k s))"
  shows "\<not> stale alive (lock_file (fs w)) \<Longrightarrow>
         acquire_loop (Suc (r + n)) env alive me k r d w \<noteq> None"
proof (induction r arbitrary: k d w)
  case 0
  show ?case by simp
next
  case (Suc r)
  let ?w1 = "interfere (env k) w"
  have ns: "\<not> stale alive (lock_file (fs ?w1))"
    using Suc.prems keeps by simp
  then have "\<not> stale alive (lock_file (fs (sleep_for d ?w1)))"
    by simp
  from Suc.IH [OF this, of "Suc k" "d * 2"] ns show ?case
    by (auto simp: stale_def Let_def split: lock.splits option.splits)
qed

text \<open>
  C10, the claim as written, fails: a marker directory without pid file uses up the five
  attempts although no attempt observes a live holder (here no process is alive at all).
\<close>

theorem pidless_lock_counterexample:
  "acquire_lock 6 quiet (\<lambda>p. False) 3 run_nopid =
     Some (False, \<lparr>fs = slot0\<lparr>lock_file := LockDir None\<rparr>,
                    trace = [Sleep 1, Sleep 2, Sleep 4, Sleep 8, Sleep 16]\<rparr>)"
proof -
  have "acquire_lock (Suc (Suc (Suc (Suc (Suc (Suc 0)))))) quiet (\<lambda>p. False) 3 run_nopid =
     Some (False, \<lparr>fs = slot0\<lparr>lock_file := LockDir None\<rparr>,
                    trace = [Sleep 1, Sleep 2, Sleep 4, Sleep 8, Sleep 16]\<rparr>)"
    by (simp add: acquire_lock_def quiet_def interfere_def sleep_for_def run_nopid_def slot0_def)
  then show ?thesis by (simp add: eval_nat_numeral)
qed

text \<open>
  C10, amended. A pass that finds a stale marker removes it and goes on without sleeping and
  with the same retry counter and wait. A pass that finds the marker present and not stale (a
  live holder, or no pid file) sleeps, takes one from the retry counter and doubles the wait.
  When no pass finds a stale marker, \<^verbatim>\<open>acquire_lock\<close> returns within six loop tests. When a stale
  marker is back before every pass, it never returns, whatever the fuel.
\<close>

theorem retry_budget:
  "(0 < r1 \<longrightarrow> stale alive (lock_file (fs (interfere (env1 k1) w1))) \<longrightarrow>
      acquire_loop (Suc f1) env1 alive me k1 r1 d1 w1 =
      acquire_loop f1 env1 alive me (Suc k1) r1 d1 (rm_lock (interfere (env1 k1) w1)))
   \<and> (0 < r2 \<longrightarrow> present_not_stale alive (lock_file (fs (interfere (env2 k2) w2))) \<longrightarrow>
      acquire_loop (Suc f2) env2 alive me k2 r2 d2 w2 =
      acquire_loop f2 env2 alive me (Suc k2) (r2 - 1) (d2 * 2) (sleep_for d2 (interfere (env2 k2) w2)))
   \<and> (\<not> stale alive (lock_file (fs w3)) \<longrightarrow>
      (\<forall>k s. \<not> stale alive (lock_file s) \<longrightarrow> \<not> stale alive (lock_file (env3 k s))) \<longrightarrow>
      acquire_lock (6 + n) env3 alive me w3 \<noteq> None)
   \<and> (\<not> alive p \<longrightarrow> acquire_lock f4 (restale p) alive me w4 = None)"
proof (intro conjI impI)
  assume "0 < r1" "stale alive (lock_file (fs (interfere (env1 k1) w1)))"
  then show "acquire_loop (Suc f1) env1 alive me k1 r1 d1 w1 =
      acquire_loop f1 env1 alive me (Suc k1) r1 d1 (rm_lock (interfere (env1 k1) w1))"
    by (auto simp: stale_def Let_def split: lock.splits option.splits)
next
  assume "0 < r2" "present_not_stale alive (lock_file (fs (interfere (env2 k2) w2)))"
  then show "acquire_loop (Suc f2) env2 alive me k2 r2 d2 w2 =
      acquire_loop f2 env2 alive me (Suc k2) (r2 - 1) (d2 * 2) (sleep_for d2 (interfere (env2 k2) w2))"
    by (auto simp: present_not_stale_def Let_def split: lock.splits option.splits)
next
  assume a: "\<not> stale alive (lock_file (fs w3))"
    and b: "\<forall>k s. \<not> stale alive (lock_file s) \<longrightarrow> \<not> stale alive (lock_file (env3 k s))"
  have f: "6 + n = Suc (5 + n)" by simp
  from b have "\<And>k s. \<not> stale alive (lock_file s) \<Longrightarrow> \<not> stale alive (lock_file (env3 k s))"
    by blast
  then show "acquire_lock (6 + n) env3 alive me w3 \<noteq> None"
    unfolding acquire_lock_def f using a by (rule acquire_loop_no_stale)
next
  assume "\<not> alive p"
  then show "acquire_lock f4 (restale p) alive me w4 = None"
    by (simp add: acquire_lock_def acquire_loop_restale)
qed

theorem retry_budget_witness:
  "stale (\<lambda>p. p = 7) (lock_file (fs (interfere (quiet 0) run_stale)))
   \<and> acquire_loop (Suc 1) quiet (\<lambda>p. p = 7) 3 0 5 1 run_stale =
       acquire_loop 1 quiet (\<lambda>p. p = 7) 3 (Suc 0) 5 1 (rm_lock (interfere (quiet 0) run_stale))
   \<and> present_not_stale (\<lambda>p. p = 7) (lock_file (fs (interfere (quiet 0) run_nopid)))
   \<and> acquire_loop (Suc 1) quiet (\<lambda>p. p = 7) 3 0 5 1 run_nopid =
       acquire_loop 1 quiet (\<lambda>p. p = 7) 3 (Suc 0) 4 2 (sleep_for 1 (interfere (quiet 0) run_nopid))
   \<and> acquire_lock 6 quiet (\<lambda>p. p = 7) 3 run_live \<noteq> None
   \<and> acquire_lock 1 (restale 9) (\<lambda>p. p = 7) 3 run_live = None"
proof -
  have h1: "stale (\<lambda>p. p = 7) (lock_file (fs (interfere (quiet 0) run_stale)))"
    by (simp add: stale_def quiet_def run_stale_def)
  have h2: "present_not_stale (\<lambda>p. p = 7) (lock_file (fs (interfere (quiet 0) run_nopid)))"
    by (simp add: present_not_stale_def quiet_def run_nopid_def)
  have h3: "\<not> stale (\<lambda>p. p = 7) (lock_file (fs run_live))"
    by (simp add: stale_def run_live_def)
  have h4: "\<forall>k s. \<not> stale (\<lambda>p. p = 7) (lock_file s) \<longrightarrow> \<not> stale (\<lambda>p. p = 7) (lock_file (quiet k s))"
    by (simp add: quiet_def)
  have h5: "\<not> (\<lambda>p. p = 7) (9::nat)"
    by simp
  show ?thesis
    using h1 h2 h3 h4 h5
      retry_budget [of 5 "\<lambda>p. p = 7" quiet 0 run_stale 1 3 1 5 quiet 0 run_nopid 1 1
                       run_live quiet 0 9 1 run_live]
    by simp
qed

section \<open>The worker's task processing\<close>

lemma acquire_loop_trace:
  "acquire_loop fuel env alive me k r d w = Some (b, w') \<Longrightarrow>
   \<exists>tr. trace w' = trace w @ tr \<and> list_all lock_action tr"
proof (induction fuel arbitrary: k r d w)
  case 0
  then show ?case by simp
next
  case (Suc fuel)
  show ?case
  proof (cases "0 < r")
    case False
    with Suc.prems show ?thesis by simp
  next
    case True
    let ?w1 = "interfere (env k) w"
    show ?thesis
    proof (cases "lock_file (fs ?w1)")
      case NoLock
      with True Suc.prems have "w' = write_pid me (mkdir_lock ?w1)"
        by (simp add: Let_def)
      then show ?thesis by (simp add: write_pid_def mkdir_lock_def)
    next
      case (LockDir x)
      show ?thesis
      proof (cases "case x of None \<Rightarrow> True | Some q \<Rightarrow> alive q")
        case True
        with \<open>0 < r\<close> LockDir Suc.prems
        have "acquire_loop fuel env alive me (Suc k) (r - 1) (d * 2) (sleep_for d ?w1) = Some (b, w')"
          by (auto simp: Let_def split: option.splits)
        from Suc.IH [OF this] show ?thesis by auto
      next
        case False
        with \<open>0 < r\<close> LockDir Suc.prems
        have "acquire_loop fuel env alive me (Suc k) r d (rm_lock ?w1) = Some (b, w')"
          by (auto simp: Let_def split: option.splits)
        from Suc.IH [OF this] show ?thesis by (auto simp: rm_lock_def)
      qed
    qed
  qed
qed

lemma acquire_lock_no_agent:
  assumes "acquire_lock fuel env alive me \<lparr>fs = s, trace = []\<rparr> = Some (b, w)"
  shows "Run_agent p \<notin> set (trace w)"
proof -
  from assms obtain tr where "trace w = tr" "list_all lock_action tr"
    unfolding acquire_lock_def by (auto dest: acquire_loop_trace)
  then show ?thesis by (auto simp: list_all_iff)
qed

lemma trace_finish_task:
  "trace (finish_task agent tid q w) =
     trace w @ [Write_status \<lparr>st_status = Working, st_taskId = tid\<rparr>, Run_agent q,
       Write_result \<lparr>r_taskId = tid, r_output = fst (snd (agent q)), r_success = fst (agent q),
         r_error = (if snd (snd (agent q)) = [] then None else Some (snd (snd (agent q))))\<rparr>,
       Write_status \<lparr>st_status = (if fst (agent q) then Done else Error), st_taskId = tid\<rparr>,
       Rm_task, Rm_lock]"
  by (cases "agent q")
     (simp add: finish_task_def write_status_def run_agent_def write_result_def rm_task_def
        release_lock_def rm_lock_def)

lemma fs_finish_task:
  "fs (finish_task agent tid q w) =
     (fs w)\<lparr>status_file := \<lparr>st_status = (if fst (agent q) then Done else Error), st_taskId = tid\<rparr>,
            result_file := Some \<lparr>r_taskId = tid, r_output = fst (snd (agent q)),
              r_success = fst (agent q),
              r_error = (if snd (snd (agent q)) = [] then None else Some (snd (snd (agent q))))\<rparr>,
            task_file := None, lock_file := NoLock\<rparr>"
  by (cases "agent q"; cases "fs w")
     (simp add: finish_task_def write_status_def run_agent_def write_result_def rm_task_def
        release_lock_def rm_lock_def)

text \<open>A run of \<^verbatim>\<open>process_task\<close> in which the agent ran is a run of its last part.\<close>

lemma process_task_ran:
  assumes run: "process_task fuel env alive agent me s = Some (rc, w)"
    and ran: "Run_agent p \<in> set (trace w)"
  shows "\<exists>tid w0. w = finish_task agent tid p w0 \<and> Run_agent p \<notin> set (trace w0)"
proof -
  from run obtain b w0 where acq: "acquire_lock fuel env alive me \<lparr>fs = s, trace = []\<rparr> = Some (b, w0)"
    by (auto simp: process_task_def split: option.splits)
  have na: "\<And>q. Run_agent q \<notin> set (trace w0)"
    using acq by (rule acquire_lock_no_agent)
  from run acq ran na obtain tid q where w: "w = finish_task agent tid q w0"
    by (auto simp: process_task_def Let_def release_lock_def rm_lock_def rm_task_def
             split: option.splits bool.splits if_splits)
  from w ran na have "q = p"
    by (auto simp: trace_finish_task)
  with w na show ?thesis by blast
qed

lemma acquire_lock_free:
  "lock_file (fs (interfere (env 0) w)) = NoLock \<Longrightarrow>
   acquire_lock (Suc n) env alive me w = Some (True, write_pid me (mkdir_lock (interfere (env 0) w)))"
  by (simp add: acquire_lock_def Let_def)

lemma process_task_free:
  assumes "lock_file s = NoLock" "task_file s = Some t" "t_prompt t = Some p" "p \<noteq> []"
  shows "process_task (Suc n) quiet alive agent me s =
     Some (0, finish_task agent (t_id t) p (write_pid me (mkdir_lock \<lparr>fs = s, trace = []\<rparr>)))"
proof -
  have "acquire_lock (Suc n) quiet alive me \<lparr>fs = s, trace = []\<rparr> =
        Some (True, write_pid me (mkdir_lock \<lparr>fs = s, trace = []\<rparr>))"
    using assms(1) acquire_lock_free [of quiet "\<lparr>fs = s, trace = []\<rparr>" n alive me]
    by (simp add: quiet_def interfere_def)
  then show ?thesis
    using assms by (simp add: process_task_def write_pid_def mkdir_lock_def)
qed

lemma process_slot_task:
  "process_task (Suc 0) quiet (\<lambda>p. p = 100) agent_ok 100 slot_task = Some (0, run_done)"
proof -
  have "process_task (Suc 0) quiet (\<lambda>p. p = 100) agent_ok 100 slot_task =
     Some (0, finish_task agent_ok (Some 1) ''A''
       (write_pid 100 (mkdir_lock \<lparr>fs = slot_task, trace = []\<rparr>)))"
    using process_task_free [of slot_task "\<lparr>t_id = Some 1, t_prompt = Some ''A'', t_context = []\<rparr>"
      "''A''" 0 "\<lambda>p. p = 100" agent_ok 100]
    by (simp add: slot_task_def slot0_def)
  moreover have "finish_task agent_ok (Some 1) ''A''
       (write_pid 100 (mkdir_lock \<lparr>fs = slot_task, trace = []\<rparr>)) = run_done"
    by (simp add: finish_task_def write_status_def run_agent_def write_result_def rm_task_def
        release_lock_def rm_lock_def write_pid_def mkdir_lock_def agent_ok_def slot_task_def
        slot0_def run_done_def)
  ultimately show ?thesis by simp
qed

text \<open>
  C7. Whenever \<^verbatim>\<open>process_task\<close> has run the agent, whether the agent succeeded or failed, the
  effects that follow are, in this order and with nothing after them: write the Result, write
  the Status \<^verbatim>\<open>done\<close> or \<^verbatim>\<open>error\<close>, remove the Task, remove the lock. The slot is then left with
  that Result and Status, no Task and no lock.
\<close>

theorem terminal_steps_order:
  assumes run: "process_task fuel env alive agent me s = Some (rc, w)"
    and ran: "Run_agent p \<in> set (trace w)"
  shows "\<exists>pre r st. trace w = pre @ [Run_agent p, Write_result r, Write_status st, Rm_task, Rm_lock]
           \<and> st_status st = (if r_success r then Done else Error)
           \<and> r_success r = fst (agent p)
           \<and> result_file (fs w) = Some r \<and> status_file (fs w) = st
           \<and> task_file (fs w) = None \<and> lock_file (fs w) = NoLock"
proof -
  from process_task_ran [OF run ran] obtain tid w0 where w: "w = finish_task agent tid p w0"
    by blast
  show ?thesis
    unfolding w by (simp add: trace_finish_task fs_finish_task)
qed

theorem terminal_steps_order_witness:
  "process_task (Suc 0) quiet (\<lambda>p. p = 100) agent_ok 100 slot_task = Some (0, run_done)
   \<and> Run_agent ''A'' \<in> set (trace run_done)
   \<and> (\<exists>pre r st. trace run_done = pre @ [Run_agent ''A'', Write_result r, Write_status st, Rm_task, Rm_lock]
           \<and> st_status st = (if r_success r then Done else Error)
           \<and> r_success r = fst (agent_ok ''A'')
           \<and> result_file (fs run_done) = Some r \<and> status_file (fs run_done) = st
           \<and> task_file (fs run_done) = None \<and> lock_file (fs run_done) = NoLock)"
proof -
  have h1: "process_task (Suc 0) quiet (\<lambda>p. p = 100) agent_ok 100 slot_task = Some (0, run_done)"
    by (rule process_slot_task)
  have h2: "Run_agent ''A'' \<in> set (trace run_done)"
    by (simp add: run_done_def)
  from terminal_steps_order [OF h1 h2] h1 h2 show ?thesis
    by blast
qed

text \<open>
  C9, the claim as written, fails: for a task without prompt the worker writes no Result
  and no Status. The slot is left idle with no Result; the only effects are taking the lock,
  removing the Task and removing the lock.
\<close>

theorem malformed_task_counterexample:
  "process_task (Suc 0) quiet (\<lambda>p. p = 100) agent_ok 100 slot_noprompt = Some (0, run_discarded)
   \<and> result_file (fs run_discarded) = None
   \<and> status_file (fs run_discarded) = status_file slot_noprompt
   \<and> st_status (status_file (fs run_discarded)) = Idle"
  by (simp add: process_task_def acquire_lock_def quiet_def interfere_def mkdir_lock_def
        write_pid_def rm_task_def release_lock_def rm_lock_def slot_noprompt_def slot0_def
        run_discarded_def)

text \<open>
  C9, amended. For a task whose prompt is absent or empty, once the lock is taken,
  \<^verbatim>\<open>process_task\<close> removes the Task, removes the lock and returns 0, so the worker goes on with
  its loop; the agent is not run, and no Result and no Status is written: both are as they
  were.
\<close>

theorem malformed_task_discarded:
  assumes "acquire_lock fuel env alive me \<lparr>fs = s, trace = []\<rparr> = Some (True, w0)"
    and "task_file (fs w0) = Some t"
    and "t_prompt t = None \<or> t_prompt t = Some []"
  shows "\<exists>w. process_task fuel env alive agent me s = Some (0, w)
           \<and> trace w = trace w0 @ [Rm_task, Rm_lock]
           \<and> task_file (fs w) = None \<and> lock_file (fs w) = NoLock
           \<and> result_file (fs w) = result_file (fs w0)
           \<and> status_file (fs w) = status_file (fs w0)"
  using assms
  by (auto simp: process_task_def Let_def rm_task_def release_lock_def rm_lock_def)

theorem malformed_task_discarded_witness:
  "acquire_lock (Suc 0) quiet (\<lambda>p. p = 100) 100 \<lparr>fs = slot_noprompt, trace = []\<rparr> =
     Some (True, \<lparr>fs = slot_noprompt\<lparr>lock_file := LockDir (Some 100)\<rparr>,
                   trace = [Mkdir_lock, Write_pid 100]\<rparr>)
   \<and> (\<exists>w. process_task (Suc 0) quiet (\<lambda>p. p = 100) agent_ok 100 slot_noprompt = Some (0, w)
           \<and> trace w = [Mkdir_lock, Write_pid 100, Rm_task, Rm_lock]
           \<and> task_file (fs w) = None \<and> lock_file (fs w) = NoLock
           \<and> result_file (fs w) = None
           \<and> status_file (fs w) = \<lparr>st_status = Idle, st_taskId = None\<rparr>)"
proof -
  let ?w0 = "\<lparr>fs = slot_noprompt\<lparr>lock_file := LockDir (Some 100)\<rparr>,
              trace = [Mkdir_lock, Write_pid 100]\<rparr>"
  let ?t = "\<lparr>t_id = Some 1, t_prompt = None, t_context = []\<rparr>"
  have h1: "acquire_lock (Suc 0) quiet (\<lambda>p. p = 100) 100 \<lparr>fs = slot_noprompt, trace = []\<rparr> =
     Some (True, ?w0)"
    by (simp add: acquire_lock_def quiet_def interfere_def mkdir_lock_def write_pid_def
          slot_noprompt_def slot0_def)
  have h2: "task_file (fs ?w0) = Some ?t"
    by (simp add: slot_noprompt_def slot0_def)
  have h3: "t_prompt ?t = None \<or> t_prompt ?t = Some []"
    by simp
  from malformed_task_discarded [OF h1 h2 h3, of agent_ok] h1 show ?thesis
    by (simp add: slot_noprompt_def slot0_def)
qed

section \<open>The sequential pipeline\<close>

lemma dispatched_yield [simp]: "dispatched (yield env w) = dispatched w"
  by (simp add: yield_def)

lemma dispatched_sleep [simp]: "dispatched (sleep env d w) = dispatched w"
  by (simp add: sleep_def)

lemma dispatched_writeStatus [simp]: "dispatched (writeStatus i st w) = dispatched w"
  by (simp add: writeStatus_def)

lemma dispatched_assignTask:
  "assignTask i p c w = (tid, w') \<Longrightarrow> dispatched w' = dispatched w @ [(i, tid, p)]"
  by (auto simp: assignTask_def writeTask_def clearResult_def)

lemma dispatched_waitForAvailableWorker_loop:
  "dispatched (snd (waitForAvailableWorker_loop env workers start t w)) = dispatched w"
proof (induction env workers start t w rule: waitForAvailableWorker_loop.induct)
  case (1 env workers start t w)
  show ?case
    by (subst waitForAvailableWorker_loop.simps) (auto split: option.splits simp: 1)
qed

lemma dispatched_waitForStatus_loop:
  "dispatched (snd (waitForStatus_loop env i targets start t w)) = dispatched w"
proof (induction env i targets start t w rule: waitForStatus_loop.induct)
  case (1 env i targets start t w)
  show ?case
    by (subst waitForStatus_loop.simps) (auto simp: Let_def 1)
qed

lemma dispatched_waitForAvailableWorker:
  "waitForAvailableWorker env workers w = (r, w') \<Longrightarrow> dispatched w' = dispatched w"
  using dispatched_waitForAvailableWorker_loop [of env workers "now w" 300000 w]
  by (simp add: waitForAvailableWorker_def)

lemma dispatched_waitForCompletion:
  "waitForCompletion env i w = (r, w') \<Longrightarrow> dispatched w' = dispatched w"
  using dispatched_waitForStatus_loop [of env i "[Done, Error]" "now w" 300000 w]
  by (auto simp: waitForCompletion_def waitForStatus_def split: prod.splits)

lemma seq_post_Cons:
  assumes "seq_post rest new" "\<not> stops oc" "o_task oc = t"
  shows "seq_post (t # rest) (oc # new)"
  using assms by (cases new) (auto simp: seq_post_def)

lemma seq_post_stop:
  assumes "stops oc" "o_task oc = t"
  shows "seq_post (t # rest) [oc]"
  using assms by (simp add: seq_post_def)

lemma executeSequential_loop_post:
  "executeSequential_loop env workers tasks acc w = (Inr results, w') \<Longrightarrow>
   \<exists>new. results = acc @ new \<and> seq_post tasks new
        \<and> dispatched w' = dispatched w @ map dispatch_of new"
proof (induction tasks arbitrary: acc w)
  case Nil
  then show ?case by (simp add: seq_post_def)
next
  case (Cons t rest)
  obtain r1 w1 where a: "waitForAvailableWorker env workers w = (r1, w1)"
    by (cases "waitForAvailableWorker env workers w")
  with Cons.prems obtain i where r1: "r1 = Inr i"
    by (cases r1) auto
  obtain tid w2 where b: "assignTask i (prompt t) (ctxt t) (yield env w1) = (tid, w2)"
    by (cases "assignTask i (prompt t) (ctxt t) (yield env w1)")
  obtain r3 w3 where c: "waitForCompletion env i (yield env w2) = (r3, w3)"
    by (cases "waitForCompletion env i (yield env w2)")
  with Cons.prems a r1 b obtain st where r3: "r3 = Inr st"
    by (cases r3) auto
  define w4 where "w4 = yield env w3"
  define oc where "oc = \<lparr>o_workerId = i, o_taskId = tid, o_task = t,
       o_result = getResult w4 i, o_status = st_status (readStatus w4 i)\<rparr>"
  define w5 where "w5 = writeStatus i Idle w4"
  have d5: "dispatched w5 = dispatched w @ [dispatch_of oc]"
    using dispatched_waitForAvailableWorker [OF a] dispatched_assignTask [OF b]
      dispatched_waitForCompletion [OF c]
    by (simp add: w5_def w4_def oc_def dispatch_of_def)
  have step: "executeSequential_loop env workers (t # rest) acc w =
      (if stopOnError t then
         (case getResult w4 i of
            None \<Rightarrow> (Inl TypeError, w5)
          | Some r \<Rightarrow> if r_success r then executeSequential_loop env workers rest (acc @ [oc]) w5
                      else (Inr (acc @ [oc]), w5))
       else executeSequential_loop env workers rest (acc @ [oc]) w5)"
    unfolding w5_def oc_def w4_def using a r1 b c r3 by (simp add: Let_def)
  show ?case
  proof (cases "stops oc")
    case True
    then have "results = acc @ [oc]" "w' = w5"
      using Cons.prems step by (auto simp: stops_def oc_def split: option.splits if_splits)
    moreover have "seq_post (t # rest) [oc]"
      using True by (intro seq_post_stop) (simp_all add: oc_def)
    ultimately show ?thesis using d5 by auto
  next
    case False
    then have "executeSequential_loop env workers rest (acc @ [oc]) w5 = (Inr results, w')"
      using Cons.prems step by (auto simp: stops_def oc_def split: option.splits if_splits)
    from Cons.IH [OF this] obtain new where
      n: "results = (acc @ [oc]) @ new" "seq_post rest new"
         "dispatched w' = dispatched w5 @ map dispatch_of new"
      by blast
    have "seq_post (t # rest) (oc # new)"
      using n(2) False by (rule seq_post_Cons) (simp add: oc_def)
    with n d5 show ?thesis by auto
  qed
qed

text \<open>
  C8. Whenever \<^verbatim>\<open>executeSequential\<close> returns its outcomes: they are the outcomes of a prefix of
  the tasks, in order; the task records written during the call are exactly those of these
  outcomes, so no later task was dispatched; no outcome before the last one is a failure of
  a task with \<^verbatim>\<open>stopOnError\<close>, so the pipeline halted right after the first such outcome; and
  when the outcomes are fewer than the tasks, the last one is such a failure.
\<close>

theorem executeSequential_stops:
  assumes "executeSequential env workers tasks w = (Inr results, w')"
  shows "map o_task results = take (length results) tasks
       \<and> dispatched w' = dispatched w @ map dispatch_of results
       \<and> list_all (\<lambda>oc. \<not> stops oc) (butlast results)
       \<and> (length results = length tasks \<or> (results \<noteq> [] \<and> stops (last results)))"
  using executeSequential_loop_post [of env workers tasks "[]" w results w'] assms
  by (auto simp: executeSequential_def seq_post_def)

subsection \<open>Running the orchestrator on given worlds\<close>

lemma worker_pass_idle: "task_file (ss i) = None \<Longrightarrow> worker_pass agent me i ss = ss"
  by (simp add: worker_pass_def)

lemma worker_pass_task:
  assumes "lock_file (ss i) = NoLock" "task_file (ss i) = Some t" "t_prompt t = Some p" "p \<noteq> []"
  shows "worker_pass agent me i ss = ss(i :=
      (ss i)\<lparr>status_file := \<lparr>st_status = (if fst (agent p) then Done else Error), st_taskId = t_id t\<rparr>,
            result_file := Some \<lparr>r_taskId = t_id t, r_output = fst (snd (agent p)),
              r_success = fst (agent p),
              r_error = (if snd (snd (agent p)) = [] then None else Some (snd (snd (agent p))))\<rparr>,
            task_file := None, lock_file := NoLock\<rparr>)"
proof -
  have "process_task 6 quiet (\<lambda>p. p = me) agent me (ss i) =
        process_task (Suc 5) quiet (\<lambda>p. p = me) agent me (ss i)"
    by simp
  then show ?thesis
    using assms process_task_free [OF assms, of 5 "\<lambda>p. p = me" agent me]
    by (cases "ss i") (simp add: worker_pass_def fs_finish_task write_pid_def mkdir_lock_def)
qed

lemma yield_lit:
  "yield env \<lparr>slots = ss, now = n, ticks = k, next_id = m, dispatched = d\<rparr> =
     \<lparr>slots = env k ss, now = n, ticks = Suc k, next_id = m, dispatched = d\<rparr>"
  by (simp add: yield_def)

lemma sleep_lit:
  "sleep env t \<lparr>slots = ss, now = n, ticks = k, next_id = m, dispatched = d\<rparr> =
     \<lparr>slots = env k ss, now = n + t, ticks = Suc k, next_id = m, dispatched = d\<rparr>"
  by (simp add: sleep_def yield_def)

lemma assignTask_lit:
  "assignTask i p c \<lparr>slots = ss, now = n, ticks = k, next_id = m, dispatched = d\<rparr> =
     (m, \<lparr>slots = ss(i := (ss i)\<lparr>result_file := None,
             task_file := Some \<lparr>t_id = Some m, t_prompt = Some p, t_context = c\<rparr>\<rparr>),
          now = n, ticks = k, next_id = Suc m, dispatched = d @ [(i, m, p)]\<rparr>)"
  by (cases "ss i") (simp add: assignTask_def writeTask_def clearResult_def)

lemma writeStatus_lit:
  "writeStatus i st \<lparr>slots = ss, now = n, ticks = k, next_id = m, dispatched = d\<rparr> =
     \<lparr>slots = ss(i := (ss i)\<lparr>status_file := \<lparr>st_status = st, st_taskId = None\<rparr>\<rparr>),
      now = n, ticks = k, next_id = m, dispatched = d\<rparr>"
  by (simp add: writeStatus_def)

lemma readStatus_lit:
  "readStatus \<lparr>slots = ss, now = n, ticks = k, next_id = m, dispatched = d\<rparr> i = status_file (ss i)"
  by (simp add: readStatus_def)

lemma getResult_lit:
  "getResult \<lparr>slots = ss, now = n, ticks = k, next_id = m, dispatched = d\<rparr> i = result_file (ss i)"
  by (simp add: getResult_def readResult_def)

lemmas lits = yield_lit sleep_lit assignTask_lit writeStatus_lit readStatus_lit getResult_lit

lemma executeSequential_example:
  "executeSequential failing_worker [0] [tA, tB, tC] world0 = (Inr [ocA], wA)"
  apply (simp add: executeSequential_def waitForAvailableWorker_def
           waitForAvailableWorker_loop.simps world0_def lits tA_def)
  apply (simp add: failing_worker_def worker_pass_idle worker_pass_task slot0_def agent_fail_def)
  apply (simp add: waitForCompletion_def waitForStatus_def waitForStatus_loop.simps lits)
  apply (simp add: Let_def lits)
  apply (simp add: lits failing_worker_def worker_pass_idle worker_pass_task slot0_def
           agent_fail_def ocA_def resA_def wA_def tA_def)
  done

theorem executeSequential_stops_witness:
  "executeSequential failing_worker [0] [tA, tB, tC] world0 = (Inr [ocA], wA)
   \<and> stopOnError tA \<and> o_result ocA = Some resA \<and> r_success resA = False
   \<and> map o_task [ocA] = [tA]
   \<and> dispatched wA = [(0, 1, ''A'')]
   \<and> stops ocA"
proof -
  have h: "executeSequential failing_worker [0] [tA, tB, tC] world0 = (Inr [ocA], wA)"
    by (rule executeSequential_example)
  from executeSequential_stops [OF h] h show ?thesis
    by (simp add: tA_def ocA_def resA_def wA_def world0_def)
qed

section \<open>Parallel dispatch\<close>

lemma findIdleWorker_slots:
  "slots w = slots w' \<Longrightarrow> findIdleWorker workers w = findIdleWorker workers w'"
  by (induction workers) (simp_all add: readStatus_def Let_def)

lemma executeTasks_loop_spins:
  "findIdleWorker workers w = None \<Longrightarrow>
   executeTasks_loop fuel still workers (t # tq) [] results w = None"
proof (induction fuel arbitrary: w)
  case 0
  show ?case by simp
next
  case (Suc fuel)
  have "slots (yield still w) = slots w"
    by (simp add: yield_def still_def)
  then have "findIdleWorker workers (yield still w) = None"
    using Suc.prems findIdleWorker_slots by metis
  from Suc.IH [OF this] Suc.prems show ?case
    by simp
qed

lemma executeTasks_loop_Inr:
  "executeTasks_loop fuel env workers tq act rs w = Some (r, w') \<Longrightarrow> \<exists>rs'. r = Inr rs'"
proof (induction fuel arbitrary: tq act rs w)
  case 0
  then show ?case by simp
next
  case (Suc fuel)
  then show ?case
    by (auto simp: Let_def split: if_splits prod.splits)
qed

text \<open>
  C1 fails on the code. Two workers are idle, two tasks are submitted, and worker 0 has not
  yet picked up task A when the assignment loop looks for an idle worker again: both tasks go
  to worker 0, the second assignment replaces the first in \<^verbatim>\<open>activeWorkers\<close> and in \<^verbatim>\<open>task.json\<close>,
  and the call returns one outcome for two tasks, with any fuel from three on.
\<close>

theorem executeTasks_drops_outcome:
  "executeTasks (Suc (Suc (Suc n))) (slow_worker agent_ok) [0, 1] [tA, tB] world0 = Some (Inr [ocB], wB)
   \<and> dispatched wB = [(0, 1, ''A''), (0, 2, ''B'')]
   \<and> length [ocB] < length [tA, tB]"
  apply (simp add: executeTasks_def world0_def slot0_def tA_def tB_def lits slow_worker_def)
  apply (simp add: Let_def lits slow_worker_def)
  apply (simp add: worker_pass_idle worker_pass_task agent_ok_def lits)
  apply (simp add: ocB_def resB_def wB_def tB_def slot0_def numeral_2_eq_2)
  done

text \<open>
  C2 fails on the code. With one worker left in state \<^verbatim>\<open>working\<close> and nothing changing, the
  loop of \<^verbatim>\<open>executeTasks\<close> is still running whatever the fuel: it never returns and never fails.
  Moreover no run of \<^verbatim>\<open>executeTasks\<close> ends in an error, so none ends in a timeout.
\<close>

theorem executeTasks_no_timeout:
  "executeTasks fuel still [0] [tA] world_busy = None
   \<and> (\<forall>env workers tasks w e w'. executeTasks fuel env workers tasks w \<noteq> Some (Inl e, w'))"
proof
  have "findIdleWorker [0] world_busy = None"
    by (simp add: world_busy_def readStatus_def slot0_def)
  then show "executeTasks fuel still [0] [tA] world_busy = None"
    unfolding executeTasks_def by (rule executeTasks_loop_spins)
  show "\<forall>env workers tasks w e w'. executeTasks fuel env workers tasks w \<noteq> Some (Inl e, w')"
    unfolding executeTasks_def using executeTasks_loop_Inr by blast
qed

section \<open>The contents of a slot\<close>

text \<open>
  C3, the claim as written, fails. The slot of worker 0 is idle and empty at the start.
  After \<^verbatim>\<open>assignTask\<close> it is idle and holds a Task; after the whole pipeline has run it is idle
  (reset by the orchestrator) and holds a Result.
\<close>

theorem idle_slot_counterexample:
  "idle_slot_empty (slots world0 0)
   \<and> \<not> idle_slot_empty (slots (snd (assignTask 0 ''A'' [] world0)) 0)
   \<and> executeSequential failing_worker [0] [tA, tB, tC] world0 = (Inr [ocA], wA)
   \<and> \<not> idle_slot_empty (slots wA 0)"
  using executeSequential_example
  by (simp add: idle_slot_empty_def world0_def slot0_def wA_def assignTask_lit)

text \<open>
  C3, amended. \<^verbatim>\<open>assignTask\<close> leaves the slot with a Task and without Result and does not touch
  the Status, so an idle slot holds a Task until the worker picks it up. The orchestrator's
  reset writes \<^verbatim>\<open>idle\<close> and keeps the Task and Result records as they are, so an idle slot holds
  the last Result until the next \<^verbatim>\<open>assignTask\<close>. The worker, when it has run a task, leaves the
  slot without Task, with a Result and with status \<^verbatim>\<open>done\<close> or \<^verbatim>\<open>error\<close>.
\<close>

theorem slot_contents_by_operation:
  "(task_file (slots (snd (assignTask i p c w)) i) = Some \<lparr>t_id = Some (next_id w), t_prompt = Some p, t_context = c\<rparr>
      \<and> result_file (slots (snd (assignTask i p c w)) i) = None
      \<and> status_file (slots (snd (assignTask i p c w)) i) = status_file (slots w i))
   \<and> (st_status (status_file (slots (writeStatus i Idle w) i)) = Idle
      \<and> task_file (slots (writeStatus i Idle w) i) = task_file (slots w i)
      \<and> result_file (slots (writeStatus i Idle w) i) = result_file (slots w i))
   \<and> (process_task fuel env alive agent me s = Some (rc, r) \<longrightarrow> Run_agent q \<in> set (trace r) \<longrightarrow>
        task_file (fs r) = None \<and> (\<exists>res. result_file (fs r) = Some res)
        \<and> (st_status (status_file (fs r)) = Done \<or> st_status (status_file (fs r)) = Error))"
proof (intro conjI impI)
  assume "process_task fuel env alive agent me s = Some (rc, r)" "Run_agent q \<in> set (trace r)"
  from process_task_ran [OF this] obtain tid w0 where r: "r = finish_task agent tid q w0"
    by blast
  show "task_file (fs r) = None" "\<exists>res. result_file (fs r) = Some res"
    "st_status (status_file (fs r)) = Done \<or> st_status (status_file (fs r)) = Error"
    unfolding r by (simp_all add: fs_finish_task)
qed (simp_all add: assignTask_def writeTask_def clearResult_def writeStatus_def)

theorem slot_contents_by_operation_witness:
  "(task_file (slots (snd (assignTask 0 ''A'' [] world0)) 0) = Some \<lparr>t_id = Some 1, t_prompt = Some ''A'', t_context = []\<rparr>
      \<and> result_file (slots (snd (assignTask 0 ''A'' [] world0)) 0) = None
      \<and> st_status (status_file (slots (snd (assignTask 0 ''A'' [] world0)) 0)) = Idle)
   \<and> process_task (Suc 0) quiet (\<lambda>p. p = 100) agent_ok 100 slot_task = Some (0, run_done)
   \<and> Run_agent ''A'' \<in> set (trace run_done)
   \<and> task_file (fs run_done) = None \<and> (\<exists>res. result_file (fs run_done) = Some res)
   \<and> st_status (status_file (fs run_done)) = Done"
proof -
  have h1: "process_task (Suc 0) quiet (\<lambda>p. p = 100) agent_ok 100 slot_task = Some (0, run_done)"
    by (rule process_slot_task)
  have h2: "Run_agent ''A'' \<in> set (trace run_done)"
    by (simp add: run_done_def)
  have h3: "st_status (status_file (fs run_done)) \<noteq> Error"
    by (simp add: run_done_def)
  have h4: "next_id world0 = 1" "status_file (slots world0 0) = \<lparr>st_status = Idle, st_taskId = None\<rparr>"
    by (simp_all add: world0_def slot0_def)
  from slot_contents_by_operation [of 0 "''A''" "[]" world0 "Suc 0" quiet "\<lambda>p. p = 100" agent_ok 100
      slot_task 0 run_done "''A''"] h1 h2 h3 h4
  show ?thesis by simp
qed

end
